theory Spec2Isabelle
  imports Complex_Main
begin

section \<open>The inverted pendulum of \<^verbatim>\<open>src/main.py\<close>\<close>

text \<open>
  The program is one class, \<^verbatim>\<open>InvertedPendulum\<close>: its constructor sets the attributes,
  and the host library then calls \<^verbatim>\<open>update\<close> once per frame. The model is a record of
  the attributes and one function per method, with the object passed in and returned.

  Numbers: Python's floats are modelled as the real numbers, \<^verbatim>\<open>math.pi\<close> as \<open>pi\<close>,
  \<^verbatim>\<open>math.sin\<close> and \<^verbatim>\<open>math.cos\<close> as \<open>sin\<close> and \<open>cos\<close>, and the literals
  \<^verbatim>\<open>9.81\<close>, \<^verbatim>\<open>0.1\<close> and \<^verbatim>\<open>1/60\<close> as the fractions they denote. Rounding,
  infinities and NaN are outside this model.
\<close>

subsection \<open>Data\<close>

record InvertedPendulum =
  g :: real
  m :: real
  l :: real
  dt :: real
  Kp :: real
  Ki :: real
  Kd :: real
  integral_error :: real
  prev_error :: real
  auto_control :: bool
  theta :: real
  omega :: real
  cart_x :: real
  cart_v :: real
  force :: real

text \<open>
  What the host library answers during one frame: \<^verbatim>\<open>pyxel.btnp\<close> for the keys Q and
  SPACE, \<^verbatim>\<open>pyxel.btn\<close> for the keys LEFT and RIGHT.
\<close>

record keys =
  btnp_KEY_Q :: bool
  btnp_KEY_SPACE :: bool
  btn_KEY_LEFT :: bool
  btn_KEY_RIGHT :: bool

text \<open>
  The ways a frame can end without a new state: \<^verbatim>\<open>pyxel.quit()\<close> leaves the process,
  and Python's division raises when the divisor is zero. \<open>InvalidConfiguration\<close> is the
  error the specification names; no statement of the source raises it.
\<close>

datatype error = Quit | ZeroDivisionError | InvalidConfiguration

subsection \<open>The constructor\<close>

definition InvertedPendulum_init :: InvertedPendulum where
  "InvertedPendulum_init =
     \<lparr> g = 981 / 100, m = 1, l = 30, dt = 1 / 60,
       Kp = 1000, Ki = 1 / 10, Kd = 300,
       integral_error = 0, prev_error = 0,
       auto_control = True,
       theta = pi / 2 + 1 / 10, omega = 0, cart_x = 80, cart_v = 0,
       force = 100 \<rparr>"

subsection \<open>\<^verbatim>\<open>normalize_angle\<close>\<close>

text \<open>
  The two \<^verbatim>\<open>while\<close> loops, one after the other. Each is a recursive function whose
  termination is proved: the number of turns still to take falls by one in each round.
\<close>

function normalize_angle_down :: "real \<Rightarrow> real" where
  "normalize_angle_down angle =
     (if angle > pi then normalize_angle_down (angle - 2 * pi) else angle)"
  by pat_completeness auto
termination
proof (relation "measure (\<lambda>angle. nat \<lceil>(angle - pi) / (2 * pi)\<rceil>)")
  show "wf (measure (\<lambda>angle. nat \<lceil>(angle - pi) / (2 * pi)\<rceil>))" by simp
next
  fix angle :: real
  assume gt: "angle > pi"
  have eq: "(angle - 2 * pi - pi) / (2 * pi) = (angle - pi) / (2 * pi) - 1"
    by (simp add: field_simps)
  have "0 < (angle - pi) / (2 * pi)" using gt by simp
  then have "0 < \<lceil>(angle - pi) / (2 * pi)\<rceil>" by linarith
  then have "nat \<lceil>(angle - pi) / (2 * pi) - 1\<rceil> < nat \<lceil>(angle - pi) / (2 * pi)\<rceil>"
    by linarith
  then show "(angle - 2 * pi, angle) \<in> measure (\<lambda>angle. nat \<lceil>(angle - pi) / (2 * pi)\<rceil>)"
    unfolding in_measure eq .
qed

function normalize_angle_up :: "real \<Rightarrow> real" where
  "normalize_angle_up angle =
     (if angle < - pi then normalize_angle_up (angle + 2 * pi) else angle)"
  by pat_completeness auto
termination
proof (relation "measure (\<lambda>angle. nat \<lceil>(- pi - angle) / (2 * pi)\<rceil>)")
  show "wf (measure (\<lambda>angle. nat \<lceil>(- pi - angle) / (2 * pi)\<rceil>))" by simp
next
  fix angle :: real
  assume lt: "angle < - pi"
  have eq: "(- pi - (angle + 2 * pi)) / (2 * pi) = (- pi - angle) / (2 * pi) - 1"
    by (simp add: field_simps)
  have "0 < (- pi - angle) / (2 * pi)" using lt by simp
  then have "0 < \<lceil>(- pi - angle) / (2 * pi)\<rceil>" by linarith
  then have "nat \<lceil>(- pi - angle) / (2 * pi) - 1\<rceil> < nat \<lceil>(- pi - angle) / (2 * pi)\<rceil>"
    by linarith
  then show "(angle + 2 * pi, angle) \<in> measure (\<lambda>angle. nat \<lceil>(- pi - angle) / (2 * pi)\<rceil>)"
    unfolding in_measure eq .
qed

declare normalize_angle_down.simps [simp del]
declare normalize_angle_up.simps [simp del]

definition normalize_angle :: "real \<Rightarrow> real" where
  "normalize_angle angle = normalize_angle_up (normalize_angle_down angle)"

subsection \<open>\<^verbatim>\<open>calculate_control\<close>\<close>

text \<open>
  The method writes \<^verbatim>\<open>self.integral_error\<close> and returns the force: the model returns
  the force together with the object.
\<close>

definition calculate_control :: "InvertedPendulum \<Rightarrow> real \<times> InvertedPendulum" where
  "calculate_control s =
     (let error = normalize_angle (theta s - (- pi / 2));
          s1 = s\<lparr>integral_error := max (- 5) (min 5 (integral_error s + error * dt s))\<rparr>;
          derivative = omega s1;
          control = Kp s1 * error + Ki s1 * integral_error s1 + Kd s1 * derivative
      in (max (- force s1) (min (force s1) control), s1))"

subsection \<open>\<^verbatim>\<open>update\<close>\<close>

text \<open>Lines 68 to 70: the SPACE key switches the mode and clears the integral.\<close>

definition update_mode :: "keys \<Rightarrow> InvertedPendulum \<Rightarrow> InvertedPendulum" where
  "update_mode k s =
     (if btnp_KEY_SPACE k
      then (s\<lparr>auto_control := \<not> auto_control s\<rparr>)\<lparr>integral_error := 0\<rparr>
      else s)"

text \<open>
  Lines 73 to 82: the local \<^verbatim>\<open>force\<close> starts at 0; in automatic mode the controller
  gives it, in manual mode the LEFT key assigns it and then the RIGHT key assigns it.
\<close>

definition update_force :: "keys \<Rightarrow> InvertedPendulum \<Rightarrow> real \<times> InvertedPendulum" where
  "update_force k s =
     (let f0 = 0 in
      if auto_control s then calculate_control s
      else
        (let f1 = (if btn_KEY_LEFT k then - force s else f0);
             f2 = (if btn_KEY_RIGHT k then force s else f1)
         in (f2, s)))"

text \<open>
  Lines 86 to 104: the equations of motion for the force \<open>f\<close>. The two divisions of
  line 90 raise before any attribute is written when \<^verbatim>\<open>self.m\<close> or \<^verbatim>\<open>self.l\<close> is zero.
\<close>

definition update_motion :: "real \<Rightarrow> InvertedPendulum \<Rightarrow> error + InvertedPendulum" where
  "update_motion f s =
     (let sin_theta = sin (theta s);
          cos_theta = cos (theta s)
      in
        if m s = 0 \<or> l s = 0 then Inl ZeroDivisionError
        else
          (let alpha = (- g s * cos_theta + f * sin_theta / m s) / l s;
               s1 = s\<lparr>omega := omega s + alpha * dt s\<rparr>;
               damping = 1 / 10;
               s2 = s1\<lparr>omega := omega s1 * (1 - damping * dt s1)\<rparr>;
               s3 = s2\<lparr>theta := theta s2 + omega s2 * dt s2\<rparr>;
               s4 = s3\<lparr>cart_v := f * dt s3 / m s3\<rparr>;
               s5 = s4\<lparr>cart_x := cart_x s4 + cart_v s4\<rparr>
           in Inr (s5\<lparr>cart_x := max 20 (min 140 (cart_x s5))\<rparr>)))"

definition update :: "keys \<Rightarrow> InvertedPendulum \<Rightarrow> error + InvertedPendulum" where
  "update k s =
     (if btnp_KEY_Q k then Inl Quit
      else
        (let s1 = update_mode k s;
             (f, s2) = update_force k s1
         in update_motion f s2))"

subsection \<open>The frame loop\<close>

text \<open>
  \<^verbatim>\<open>pyxel.run\<close> calls \<^verbatim>\<open>update\<close> once per frame. \<open>run ks s\<close> lists the objects after
  each completed frame, for the key answers \<open>ks\<close> of the successive frames; the loop
  ends with the first frame that quits or raises.
\<close>

fun run :: "keys list \<Rightarrow> InvertedPendulum \<Rightarrow> InvertedPendulum list" where
  "run [] s = []"
| "run (k # ks) s =
     (case update k s of Inl e \<Rightarrow> [] | Inr s' \<Rightarrow> s' # run ks s')"

subsection \<open>What a run shows\<close>



section \<open>Angle normalisation\<close>

lemma normalize_angle_down_id: "x \<le> pi \<Longrightarrow> normalize_angle_down x = x"
  by (subst normalize_angle_down.simps) simp

lemma normalize_angle_down_step:
  "pi < x \<Longrightarrow> normalize_angle_down x = normalize_angle_down (x - 2 * pi)"
  by (subst normalize_angle_down.simps) simp

lemma normalize_angle_up_id: "- pi \<le> x \<Longrightarrow> normalize_angle_up x = x"
  by (subst normalize_angle_up.simps) simp

lemma normalize_angle_up_step:
  "x < - pi \<Longrightarrow> normalize_angle_up x = normalize_angle_up (x + 2 * pi)"
  by (subst normalize_angle_up.simps) simp

lemma normalize_angle_down_range:
  "normalize_angle_down x \<le> pi \<and> (pi < x \<longrightarrow> - pi < normalize_angle_down x)"
proof (induction x rule: normalize_angle_down.induct)
  case (1 angle)
  show ?case
  proof (cases "pi < angle")
    case True
    note ih = 1 [OF True]
    show ?thesis
    proof (cases "pi < angle - 2 * pi")
      case True
      with ih \<open>pi < angle\<close> show ?thesis
        by (simp add: normalize_angle_down_step [of angle])
    next
      case False
      then have "normalize_angle_down (angle - 2 * pi) = angle - 2 * pi"
        by (simp add: normalize_angle_down_id)
      with \<open>pi < angle\<close> False show ?thesis
        by (simp add: normalize_angle_down_step [of angle])
    qed
  next
    case False
    then show ?thesis by (simp add: normalize_angle_down_id)
  qed
qed

lemma normalize_angle_up_range:
  "- pi \<le> normalize_angle_up x \<and> (x \<le> pi \<longrightarrow> normalize_angle_up x \<le> pi)"
proof (induction x rule: normalize_angle_up.induct)
  case (1 angle)
  show ?case
  proof (cases "angle < - pi")
    case True
    note ih = 1 [OF True]
    have "angle + 2 * pi \<le> pi" using True by simp
    with ih True show ?thesis by (simp add: normalize_angle_up_step [of angle])
  next
    case False
    then show ?thesis by (simp add: normalize_angle_up_id)
  qed
qed

lemma normalize_angle_range: "- pi \<le> normalize_angle x \<and> normalize_angle x \<le> pi"
  using normalize_angle_up_range [of "normalize_angle_down x"] normalize_angle_down_range [of x]
  by (simp add: normalize_angle_def)

lemma normalize_angle_id: "- pi \<le> x \<Longrightarrow> x \<le> pi \<Longrightarrow> normalize_angle x = x"
  by (simp add: normalize_angle_def normalize_angle_down_id normalize_angle_up_id)

lemma normalize_angle_up_minus_pi:
  "normalize_angle_up x = - pi \<longleftrightarrow> (\<exists>k::nat. x = - (2 * real k + 1) * pi)"
proof (induction x rule: normalize_angle_up.induct)
  case (1 angle)
  show ?case
  proof (cases "angle < - pi")
    case True
    note ih = 1 [OF True]
    have "(\<exists>k::nat. angle + 2 * pi = - (2 * real k + 1) * pi)
          \<longleftrightarrow> (\<exists>k::nat. angle = - (2 * real k + 1) * pi)"
    proof
      assume "\<exists>k::nat. angle + 2 * pi = - (2 * real k + 1) * pi"
      then obtain k :: nat where "angle + 2 * pi = - (2 * real k + 1) * pi" ..
      then have "angle = - (2 * real (Suc k) + 1) * pi" by (simp add: algebra_simps)
      then show "\<exists>k::nat. angle = - (2 * real k + 1) * pi" ..
    next
      assume "\<exists>k::nat. angle = - (2 * real k + 1) * pi"
      then obtain k :: nat where k: "angle = - (2 * real k + 1) * pi" ..
      have "k \<noteq> 0"
      proof
        assume "k = 0"
        with k have "angle = - pi" by simp
        with True show False by simp
      qed
      then obtain j where j: "k = Suc j" by (cases k) auto
      have "angle + 2 * pi = - (2 * real j + 1) * pi"
        unfolding k j by (simp add: algebra_simps)
      then show "\<exists>k::nat. angle + 2 * pi = - (2 * real k + 1) * pi" ..
    qed
    with ih True show ?thesis by (simp add: normalize_angle_up_step [of angle])
  next
    case False
    have "angle = - pi \<longleftrightarrow> (\<exists>k::nat. angle = - (2 * real k + 1) * pi)"
    proof
      assume "angle = - pi"
      then have "angle = - (2 * real 0 + 1) * pi" by simp
      then show "\<exists>k::nat. angle = - (2 * real k + 1) * pi" ..
    next
      assume "\<exists>k::nat. angle = - (2 * real k + 1) * pi"
      then obtain k :: nat where k: "angle = - (2 * real k + 1) * pi" ..
      from k have "angle = - ((2 * real k + 1) * pi)" by (simp only: mult_minus_left)
      with False have "(2 * real k + 1) * pi \<le> 1 * pi" by linarith
      then have "2 * real k + 1 \<le> 1" by (simp only: mult_le_cancel_right_pos [OF pi_gt_zero])
      then have "k = 0" by simp
      with k show "angle = - pi" by simp
    qed
    with False show ?thesis by (simp add: normalize_angle_up_id)
  qed
qed

lemma normalize_angle_minus_pi:
  "normalize_angle x = - pi \<longleftrightarrow> (\<exists>k::nat. x = - (2 * real k + 1) * pi)"
proof (cases "pi < x")
  case True
  with normalize_angle_down_range [of x]
  have r: "- pi < normalize_angle_down x" by simp
  then have "normalize_angle x = normalize_angle_down x"
    by (simp add: normalize_angle_def normalize_angle_up_id)
  with r have "normalize_angle x \<noteq> - pi" by simp
  moreover have "\<not> (\<exists>k::nat. x = - (2 * real k + 1) * pi)"
  proof
    assume "\<exists>k::nat. x = - (2 * real k + 1) * pi"
    then obtain k :: nat where k: "x = - (2 * real k + 1) * pi" ..
    have nn: "0 \<le> (2 * real k + 1) * pi" by simp
    from k have "x = - ((2 * real k + 1) * pi)" by (simp only: mult_minus_left)
    with nn have "x \<le> 0" by linarith
    with True pi_gt_zero show False by linarith
  qed
  ultimately show ?thesis by simp
next
  case False
  then have "normalize_angle x = normalize_angle_up x"
    by (simp add: normalize_angle_def normalize_angle_down_id)
  then show ?thesis by (simp add: normalize_angle_up_minus_pi)
qed

lemma normalize_angle_period:
  assumes "x \<noteq> - pi"
  shows "normalize_angle (x + 2 * pi) = normalize_angle x"
proof (cases "- pi < x")
  case True
  then have "pi < x + 2 * pi" by simp
  then have "normalize_angle_down (x + 2 * pi) = normalize_angle_down (x + 2 * pi - 2 * pi)"
    by (rule normalize_angle_down_step)
  then show ?thesis by (simp add: normalize_angle_def)
next
  case False
  with assms have lt: "x < - pi" by simp
  then have "x + 2 * pi \<le> pi" "x \<le> pi" using pi_gt_zero by linarith+
  then have "normalize_angle (x + 2 * pi) = normalize_angle_up (x + 2 * pi)"
    "normalize_angle x = normalize_angle_up x"
    by (simp_all add: normalize_angle_def normalize_angle_down_id)
  with normalize_angle_up_step [OF lt] show ?thesis by simp
qed

lemma normalize_angle_idem: "normalize_angle (normalize_angle x) = normalize_angle x"
  using normalize_angle_range [of x] by (simp add: normalize_angle_id)

text \<open>
  Claim C5, as the specification states it: for every real \<open>x\<close> the result of
  \<open>normalize_angle\<close> lies in the half-open interval from \<open>- pi\<close> (excluded) to \<open>pi\<close>
  (included), so it is never \<open>- pi\<close>. The second loop runs only while the angle is
  strictly below \<open>- pi\<close>, so the input \<open>- pi\<close> passes both loops unchanged.
\<close>

theorem normalize_angle_minus_pi_returned:
  "normalize_angle (- pi) = - pi \<and> \<not> (- pi < normalize_angle (- pi))"
  by (simp add: normalize_angle_id)

text \<open>
  Claim C5, amended: for every real \<open>x\<close> the result of \<open>normalize_angle\<close> lies in the
  closed interval from \<open>- pi\<close> to \<open>pi\<close>, and it is \<open>- pi\<close> exactly for the inputs
  \<open>- pi\<close>, \<open>- 3 pi\<close>, \<open>- 5 pi\<close>, ...; for every other input it lies in the half-open
  interval of the claim.
\<close>

theorem normalize_angle_closed_interval:
  "- pi \<le> normalize_angle x \<and> normalize_angle x \<le> pi
   \<and> (normalize_angle x = - pi \<longleftrightarrow> (\<exists>k::nat. x = - (2 * real k + 1) * pi))"
  using normalize_angle_range [of x] normalize_angle_minus_pi [of x] by simp

theorem normalize_angle_closed_interval_witness:
  "normalize_angle (- 3 * pi) = - pi \<and> - pi < normalize_angle 0 \<and> normalize_angle 0 \<le> pi"
proof -
  have a: "\<exists>k::nat. - 3 * pi = - (2 * real k + 1) * pi"
    by (rule exI [of _ 1]) simp
  have b: "\<not> (\<exists>k::nat. (0::real) = - (2 * real k + 1) * pi)"
  proof
    assume "\<exists>k::nat. (0::real) = - (2 * real k + 1) * pi"
    then obtain k :: nat where "(0::real) = - (2 * real k + 1) * pi" ..
    then have "2 * real k + 1 = 0" by simp
    then show False by linarith
  qed
  from a have "normalize_angle (- 3 * pi) = - pi"
    using normalize_angle_closed_interval [of "- 3 * pi"] by blast
  moreover from b have "- pi < normalize_angle 0 \<and> normalize_angle 0 \<le> pi"
    using normalize_angle_closed_interval [of 0] by (auto simp: less_le)
  ultimately show ?thesis by blast
qed

text \<open>
  Claim C6, as the specification states it: \<open>normalize_angle\<close> is idempotent and has
  period \<open>2 pi\<close>, for every real \<open>x\<close>. At \<open>x = - pi\<close> the period fails: \<open>- pi\<close> is
  returned unchanged, and so is \<open>- pi + 2 pi = pi\<close>.
\<close>

theorem normalize_angle_period_fails_at_minus_pi:
  "normalize_angle (- pi + 2 * pi) \<noteq> normalize_angle (- pi)"
  by (simp add: normalize_angle_id)

text \<open>
  Claim C6, amended: \<open>normalize_angle\<close> is idempotent for every real \<open>x\<close>, and
  \<open>normalize_angle (x + 2 pi) = normalize_angle x\<close> for every real \<open>x\<close> other than
  \<open>- pi\<close>.
\<close>

theorem normalize_angle_idempotent_periodic:
  "normalize_angle (normalize_angle x) = normalize_angle x
   \<and> (x \<noteq> - pi \<longrightarrow> normalize_angle (x + 2 * pi) = normalize_angle x)"
  using normalize_angle_idem [of x] normalize_angle_period [of x] by simp

theorem normalize_angle_idempotent_periodic_witness:
  "(0::real) \<noteq> - pi \<and> normalize_angle (normalize_angle 0) = normalize_angle 0
   \<and> normalize_angle (0 + 2 * pi) = 0"
  using normalize_angle_idempotent_periodic [of 0] by (simp add: normalize_angle_id)

section \<open>One frame\<close>

lemma update_motion_eq:
  assumes "m s \<noteq> 0" and "l s \<noteq> 0"
  shows "update_motion f s =
     Inr (s\<lparr>omega := (omega s + (- g s * cos (theta s) + f * sin (theta s) / m s) / l s * dt s)
                      * (1 - 1 / 10 * dt s),
            theta := theta s
                      + (omega s + (- g s * cos (theta s) + f * sin (theta s) / m s) / l s * dt s)
                        * (1 - 1 / 10 * dt s) * dt s,
            cart_v := f * dt s / m s,
            cart_x := max 20 (min 140 (cart_x s + f * dt s / m s))\<rparr>)"
  using assms by (simp add: update_motion_def Let_def)

lemma update_motion_raises:
  "m s = 0 \<or> l s = 0 \<Longrightarrow> update_motion f s = Inl ZeroDivisionError"
  by (simp add: update_motion_def Let_def)

lemma calculate_control_eq:
  "calculate_control s =
     (max (- force s)
        (min (force s)
           (Kp s * normalize_angle (theta s - (- pi / 2))
            + Ki s * max (- 5) (min 5 (integral_error s + normalize_angle (theta s - (- pi / 2)) * dt s))
            + Kd s * omega s)),
      s\<lparr>integral_error :=
           max (- 5) (min 5 (integral_error s + normalize_angle (theta s - (- pi / 2)) * dt s))\<rparr>)"
  by (simp add: calculate_control_def Let_def)

text \<open>
  Claim C1: for every object and every force \<open>f\<close>, the equations of motion of one frame
  (lines 86 to 104) compute the angular acceleration
  \<open>alpha = (- g cos theta + f sin theta / m) / l\<close>, add \<open>alpha dt\<close> to \<open>omega\<close>, multiply the
  new \<open>omega\<close> by \<open>1 - 0.1 dt\<close>, add that \<open>omega\<close> times \<open>dt\<close> to \<open>theta\<close>, assign
  \<open>f dt / m\<close> to \<open>cart_v\<close> whatever it held before, and add \<open>cart_v\<close> to \<open>cart_x\<close>, which
  is then clamped to the interval from 20 to 140. The divisions need \<open>m\<close> and \<open>l\<close> to
  be nonzero, as the constructor sets them.
\<close>

theorem update_motion_semi_implicit_euler:
  assumes "m s \<noteq> 0" and "l s \<noteq> 0"
  shows "let alpha = (- g s * cos (theta s) + f * sin (theta s) / m s) / l s;
             omega1 = omega s + alpha * dt s;
             omega2 = omega1 * (1 - 1 / 10 * dt s);
             theta1 = theta s + omega2 * dt s;
             v = f * dt s / m s;
             x = max 20 (min 140 (cart_x s + v))
         in update_motion f s
            = Inr (s\<lparr>omega := omega2, theta := theta1, cart_v := v, cart_x := x\<rparr>)"
  using update_motion_eq [OF assms, of f] by (simp add: Let_def)

theorem update_motion_semi_implicit_euler_witness:
  "m InvertedPendulum_init \<noteq> 0 \<and> l InvertedPendulum_init \<noteq> 0
   \<and> update_motion 60 (InvertedPendulum_init\<lparr>theta := 0\<rparr>)
       = Inr (InvertedPendulum_init\<lparr>omega := - (981 / 100) / 30 * (1 / 60) * (1 - 1 / 10 * (1 / 60)),
               theta := - (981 / 100) / 30 * (1 / 60) * (1 - 1 / 10 * (1 / 60)) * (1 / 60),
               cart_v := 1, cart_x := 81\<rparr>)"
  using update_motion_semi_implicit_euler [of "InvertedPendulum_init\<lparr>theta := 0\<rparr>" 60]
  by (simp add: InvertedPendulum_init_def Let_def)

text \<open>
  Claim C2: with the force limit 100 of the constructor, for every angle, angular
  velocity and prior integral, \<open>calculate_control\<close> stores the clamped integral and
  returns the sum \<open>Kp error + Ki integral_error + Kd omega\<close> (with the integral just
  stored) clamped to the interval from \<open>- 100\<close> to \<open>100\<close>: its magnitude is at most 100,
  and it is exactly \<open>100\<close> or \<open>- 100\<close> when the sum lies beyond the limit.
\<close>

theorem calculate_control_clamped:
  assumes "force s = 100"
  shows "let e = normalize_angle (theta s - (- pi / 2));
             i = max (- 5) (min 5 (integral_error s + e * dt s));
             raw = Kp s * e + Ki s * i + Kd s * omega s;
             out = fst (calculate_control s)
         in snd (calculate_control s) = s\<lparr>integral_error := i\<rparr>
            \<and> out = max (- 100) (min 100 raw)
            \<and> \<bar>out\<bar> \<le> 100
            \<and> (100 < raw \<longrightarrow> out = 100)
            \<and> (raw < - 100 \<longrightarrow> out = - 100)"
  using assms by (simp add: calculate_control_eq Let_def)

theorem calculate_control_clamped_witness:
  "force (InvertedPendulum_init\<lparr>theta := pi / 2\<rparr>) = 100
   \<and> fst (calculate_control (InvertedPendulum_init\<lparr>theta := pi / 2\<rparr>)) = 100
   \<and> fst (calculate_control (InvertedPendulum_init\<lparr>theta := - pi / 2\<rparr>)) = 0"
proof -
  let ?s = "InvertedPendulum_init\<lparr>theta := pi / 2\<rparr>"
  let ?t = "InvertedPendulum_init\<lparr>theta := - pi / 2\<rparr>"
  have fs: "force ?s = 100" and ft: "force ?t = 100"
    by (simp_all add: InvertedPendulum_init_def)
  have e: "normalize_angle (theta ?s - (- pi / 2)) = pi"
    by (simp add: InvertedPendulum_init_def normalize_angle_id)
  have i: "max (- 5) (min 5 (integral_error ?s + pi * dt ?s)) = pi / 60"
    using pi_ge_two pi_less_4 by (simp add: InvertedPendulum_init_def)
  have raw: "100 < Kp ?s * pi + Ki ?s * (pi / 60) + Kd ?s * omega ?s"
    using pi_ge_two by (simp add: InvertedPendulum_init_def)
  have "fst (calculate_control ?s) = 100"
    using calculate_control_clamped [OF fs] raw unfolding Let_def e i by blast
  moreover have "normalize_angle (theta ?t - (- pi / 2)) = 0"
    by (simp add: InvertedPendulum_init_def normalize_angle_id)
  then have "fst (calculate_control ?t) = 0"
    using calculate_control_clamped [OF ft] by (simp add: Let_def InvertedPendulum_init_def)
  ultimately show ?thesis using fs by blast
qed

lemma update_mode_eq:
  "update_mode k s =
     (if btnp_KEY_SPACE k then s\<lparr>auto_control := \<not> auto_control s, integral_error := 0\<rparr> else s)"
  by (simp add: update_mode_def)

lemma update_force_manual:
  "\<not> auto_control s \<Longrightarrow>
   update_force k s =
     (if btn_KEY_RIGHT k then force s else if btn_KEY_LEFT k then - force s else 0, s)"
  by (simp add: update_force_def Let_def)

lemma update_force_auto: "auto_control s \<Longrightarrow> update_force k s = calculate_control s"
  by (simp add: update_force_def Let_def)

lemma update_eq:
  "\<not> btnp_KEY_Q k \<Longrightarrow>
   update k s = update_motion (fst (update_force k (update_mode k s)))
                              (snd (update_force k (update_mode k s)))"
  by (simp add: update_def Let_def split_beta)

lemma update_quits: "btnp_KEY_Q k \<Longrightarrow> update k s = Inl Quit"
  by (simp add: update_def)

lemma snd_update_force:
  "snd (update_force k s) =
     s\<lparr>integral_error :=
         (if auto_control s
          then max (- 5) (min 5 (integral_error s + normalize_angle (theta s - (- pi / 2)) * dt s))
          else integral_error s)\<rparr>"
  by (cases "auto_control s") (simp_all add: update_force_manual update_force_auto calculate_control_eq)

lemma update_Inr_iff:
  "update k s = Inr s' \<longleftrightarrow>
     \<not> btnp_KEY_Q k \<and> m s \<noteq> 0 \<and> l s \<noteq> 0
     \<and> update_motion (fst (update_force k (update_mode k s)))
                      (snd (update_force k (update_mode k s))) = Inr s'"
proof (cases "btnp_KEY_Q k")
  case True
  then show ?thesis by (simp add: update_quits)
next
  case False
  show ?thesis
  proof (cases "m s = 0 \<or> l s = 0")
    case True
    then have "m (snd (update_force k (update_mode k s))) = 0
               \<or> l (snd (update_force k (update_mode k s))) = 0"
      by (simp add: snd_update_force update_mode_eq)
    then have "update_motion (fst (update_force k (update_mode k s)))
                 (snd (update_force k (update_mode k s))) = Inl ZeroDivisionError"
      by (rule update_motion_raises)
    with True False show ?thesis by (simp add: update_eq)
  next
    case nz: False
    with False show ?thesis by (simp add: update_eq)
  qed
qed

lemma update_Inr_fields:
  assumes "update k s = Inr s'"
  shows "g s' = g s" and "m s' = m s" and "l s' = l s" and "dt s' = dt s"
    and "Kp s' = Kp s" and "Ki s' = Ki s" and "Kd s' = Kd s" and "force s' = force s"
    and "prev_error s' = prev_error s"
    and "auto_control s' = auto_control (update_mode k s)"
    and "integral_error s' = integral_error (snd (update_force k (update_mode k s)))"
    and "cart_v s' = fst (update_force k (update_mode k s)) * dt s / m s"
    and "cart_x s' = max 20 (min 140 (cart_x s + fst (update_force k (update_mode k s)) * dt s / m s))"
proof -
  let ?f = "fst (update_force k (update_mode k s))"
  let ?s2 = "snd (update_force k (update_mode k s))"
  from assms have nz: "m s \<noteq> 0" "l s \<noteq> 0" and mo: "update_motion ?f ?s2 = Inr s'"
    by (simp_all add: update_Inr_iff)
  have c: "m ?s2 = m s" "l ?s2 = l s" "g ?s2 = g s" "dt ?s2 = dt s" "Kp ?s2 = Kp s"
    "Ki ?s2 = Ki s" "Kd ?s2 = Kd s" "force ?s2 = force s" "prev_error ?s2 = prev_error s"
    "cart_x ?s2 = cart_x s" "auto_control ?s2 = auto_control (update_mode k s)"
    by (simp_all add: snd_update_force update_mode_eq)
  from nz c have "m ?s2 \<noteq> 0" "l ?s2 \<noteq> 0" by simp_all
  from update_motion_eq [OF this, of ?f] mo
  have s': "s' = ?s2\<lparr>omega := (omega ?s2 + (- g ?s2 * cos (theta ?s2) + ?f * sin (theta ?s2) / m ?s2) / l ?s2 * dt ?s2)
                      * (1 - 1 / 10 * dt ?s2),
            theta := theta ?s2
                      + (omega ?s2 + (- g ?s2 * cos (theta ?s2) + ?f * sin (theta ?s2) / m ?s2) / l ?s2 * dt ?s2)
                        * (1 - 1 / 10 * dt ?s2) * dt ?s2,
            cart_v := ?f * dt ?s2 / m ?s2,
            cart_x := max 20 (min 140 (cart_x ?s2 + ?f * dt ?s2 / m ?s2))\<rparr>"
    by simp
  show "g s' = g s" and "m s' = m s" and "l s' = l s" and "dt s' = dt s"
    and "Kp s' = Kp s" and "Ki s' = Ki s" and "Kd s' = Kd s" and "force s' = force s"
    and "prev_error s' = prev_error s"
    and "auto_control s' = auto_control (update_mode k s)"
    and "integral_error s' = integral_error (snd (update_force k (update_mode k s)))"
    and "cart_v s' = fst (update_force k (update_mode k s)) * dt s / m s"
    and "cart_x s' = max 20 (min 140 (cart_x s + fst (update_force k (update_mode k s)) * dt s / m s))"
    by (simp_all add: s' c)
qed

lemma update_total:
  "\<not> btnp_KEY_Q k \<Longrightarrow> m s \<noteq> 0 \<Longrightarrow> l s \<noteq> 0 \<Longrightarrow> \<exists>s'. update k s = Inr s'"
proof -
  assume q: "\<not> btnp_KEY_Q k" and nz: "m s \<noteq> 0" "l s \<noteq> 0"
  let ?f = "fst (update_force k (update_mode k s))"
  let ?s2 = "snd (update_force k (update_mode k s))"
  have "m ?s2 \<noteq> 0" "l ?s2 \<noteq> 0" using nz by (simp_all add: snd_update_force update_mode_eq)
  from update_motion_eq [OF this, of ?f] q show ?thesis by (simp add: update_eq)
qed

text \<open>
  Claim C9: in a frame that does not quit and whose mode, after the SPACE key has been
  handled, is manual, the force is \<open>- force\<close> when only LEFT is held, \<open>force\<close> when only
  RIGHT is held, 0 when neither is held and \<open>force\<close> when both are held (RIGHT is
  assigned last); the equations of motion run with that force. The attribute \<open>force\<close>
  is the limit, 100 from the constructor.
\<close>

theorem manual_force_right_over_left:
  assumes "\<not> btnp_KEY_Q k" and "\<not> auto_control (update_mode k s)"
  shows "let s1 = update_mode k s;
             f = (if btn_KEY_LEFT k \<and> \<not> btn_KEY_RIGHT k then - force s1
                  else if btn_KEY_RIGHT k \<and> \<not> btn_KEY_LEFT k then force s1
                  else if \<not> btn_KEY_LEFT k \<and> \<not> btn_KEY_RIGHT k then 0
                  else force s1)
         in update_force k s1 = (f, s1) \<and> update k s = update_motion f s1"
  using assms by (simp add: update_eq update_force_manual Let_def)

theorem manual_force_right_over_left_witness:
  "\<not> btnp_KEY_Q \<lparr>btnp_KEY_Q = False, btnp_KEY_SPACE = True, btn_KEY_LEFT = True, btn_KEY_RIGHT = True\<rparr>
   \<and> \<not> auto_control
        (update_mode \<lparr>btnp_KEY_Q = False, btnp_KEY_SPACE = True, btn_KEY_LEFT = True, btn_KEY_RIGHT = True\<rparr>
           InvertedPendulum_init)
   \<and> update_force \<lparr>btnp_KEY_Q = False, btnp_KEY_SPACE = True, btn_KEY_LEFT = True, btn_KEY_RIGHT = True\<rparr>
        (update_mode \<lparr>btnp_KEY_Q = False, btnp_KEY_SPACE = True, btn_KEY_LEFT = True, btn_KEY_RIGHT = True\<rparr>
           InvertedPendulum_init)
      = (100, InvertedPendulum_init\<lparr>auto_control := False\<rparr>)"
  using manual_force_right_over_left
    [of "\<lparr>btnp_KEY_Q = False, btnp_KEY_SPACE = True, btn_KEY_LEFT = True, btn_KEY_RIGHT = True\<rparr>"
      InvertedPendulum_init]
  by (simp add: update_mode_eq InvertedPendulum_init_def Let_def)

section \<open>Runs\<close>

lemma integral_error_calculate_control:
  "- 5 \<le> integral_error (snd (calculate_control s)) \<and> integral_error (snd (calculate_control s)) \<le> 5"
  by (simp add: calculate_control_eq)

lemma integral_error_update_mode:
  "- 5 \<le> integral_error s \<Longrightarrow> integral_error s \<le> 5 \<Longrightarrow>
   - 5 \<le> integral_error (update_mode k s) \<and> integral_error (update_mode k s) \<le> 5"
  by (simp add: update_mode_eq)

lemma integral_error_update:
  assumes "update k s = Inr s'" and "- 5 \<le> integral_error s" and "integral_error s \<le> 5"
  shows "- 5 \<le> integral_error s' \<and> integral_error s' \<le> 5"
proof -
  let ?s1 = "update_mode k s"
  have r1: "- 5 \<le> integral_error ?s1 \<and> integral_error ?s1 \<le> 5"
    using assms(2,3) by (rule integral_error_update_mode)
  have "integral_error s' = integral_error (snd (update_force k ?s1))"
    using assms(1) by (rule update_Inr_fields)
  with r1 show ?thesis by (simp add: snd_update_force)
qed

lemma run_integral_error:
  "- 5 \<le> integral_error s \<Longrightarrow> integral_error s \<le> 5 \<Longrightarrow>
   \<forall>t\<in>set (run ks s). - 5 \<le> integral_error t \<and> integral_error t \<le> 5"
proof (induction ks arbitrary: s)
  case Nil
  show ?case by simp
next
  case (Cons k ks)
  show ?case
  proof (cases "update k s")
    case (Inl e)
    then show ?thesis by simp
  next
    case (Inr s')
    from integral_error_update [OF Inr Cons.prems]
    have "- 5 \<le> integral_error s'" and "integral_error s' \<le> 5" by simp_all
    from Cons.IH [OF this] this Inr show ?thesis by simp
  qed
qed

lemma run_length:
  "\<forall>k\<in>set ks. \<not> btnp_KEY_Q k \<Longrightarrow> m s \<noteq> 0 \<Longrightarrow> l s \<noteq> 0 \<Longrightarrow>
   length (run ks s) = length ks"
proof (induction ks arbitrary: s)
  case Nil
  show ?case by simp
next
  case (Cons k ks)
  from Cons.prems have "\<not> btnp_KEY_Q k" by simp
  from update_total [OF this Cons.prems(2,3)] obtain s' where s': "update k s = Inr s'" ..
  have "m s' \<noteq> 0" "l s' \<noteq> 0"
    using update_Inr_fields(2,3) [OF s'] Cons.prems(2,3) by simp_all
  moreover from Cons.prems have "\<forall>k\<in>set ks. \<not> btnp_KEY_Q k" by simp
  ultimately have "length (run ks s') = length ks" by (rule Cons.IH [rotated])
  with s' show ?case by simp
qed

lemma cart_x_update:
  assumes "update k s = Inr s'"
  shows "20 \<le> cart_x s' \<and> cart_x s' \<le> 140"
  using update_Inr_fields(13) [OF assms] by simp

lemma run_cart_x: "\<forall>t\<in>set (run ks s). 20 \<le> cart_x t \<and> cart_x t \<le> 140"
proof (induction ks arbitrary: s)
  case Nil
  show ?case by simp
next
  case (Cons k ks)
  show ?case
  proof (cases "update k s")
    case (Inl e)
    then show ?thesis by simp
  next
    case (Inr s')
    with cart_x_update [OF Inr] Cons.IH [of s'] show ?thesis by simp
  qed
qed

lemma update_space_forgets_integral:
  "btnp_KEY_SPACE k \<Longrightarrow>
   update k (s\<lparr>integral_error := a\<rparr>) = update k (s\<lparr>integral_error := b\<rparr>)"
  by (simp add: update_def update_mode_eq)








text \<open>
  Claim C3: \<open>integral_error\<close> starts at 0 and stays between \<open>- 5\<close> and \<open>5\<close> after every
  operation: after every call of \<open>calculate_control\<close> (whatever the object held before),
  after every handling of the SPACE key, and after every frame of a run, for every
  sequence of key answers and hence every sequence of errors. The theorem starts a run
  from any object whose integral is within the limits, as the constructor's is; and a run
  whose frames do not quit, with nonzero \<open>m\<close> and \<open>l\<close>, completes every frame, so the
  bound speaks about as many objects as there are frames.
\<close>

theorem integral_error_within_limits:
  assumes "- 5 \<le> integral_error s" and "integral_error s \<le> 5"
  shows "(- 5 \<le> integral_error (snd (calculate_control s0))
          \<and> integral_error (snd (calculate_control s0)) \<le> 5)
       \<and> (- 5 \<le> integral_error (update_mode k s) \<and> integral_error (update_mode k s) \<le> 5)
       \<and> (\<forall>t\<in>set (run ks s). - 5 \<le> integral_error t \<and> integral_error t \<le> 5)
       \<and> ((\<forall>k\<in>set ks. \<not> btnp_KEY_Q k) \<and> m s \<noteq> 0 \<and> l s \<noteq> 0
            \<longrightarrow> length (run ks s) = length ks)"
  using integral_error_calculate_control [of s0] integral_error_update_mode [OF assms, of k]
    run_integral_error [OF assms, of ks] run_length [of ks s]
  by blast

theorem integral_error_within_limits_witness:
  "integral_error InvertedPendulum_init = 0
   \<and> length (run [\<lparr>btnp_KEY_Q = False, btnp_KEY_SPACE = False, btn_KEY_LEFT = False, btn_KEY_RIGHT = False\<rparr>,
                   \<lparr>btnp_KEY_Q = False, btnp_KEY_SPACE = False, btn_KEY_LEFT = False, btn_KEY_RIGHT = False\<rparr>]
                InvertedPendulum_init) = 2
   \<and> - 5 \<le> integral_error
              (run [\<lparr>btnp_KEY_Q = False, btnp_KEY_SPACE = False, btn_KEY_LEFT = False, btn_KEY_RIGHT = False\<rparr>,
                    \<lparr>btnp_KEY_Q = False, btnp_KEY_SPACE = False, btn_KEY_LEFT = False, btn_KEY_RIGHT = False\<rparr>]
                 InvertedPendulum_init ! 1)
   \<and> integral_error
         (run [\<lparr>btnp_KEY_Q = False, btnp_KEY_SPACE = False, btn_KEY_LEFT = False, btn_KEY_RIGHT = False\<rparr>,
               \<lparr>btnp_KEY_Q = False, btnp_KEY_SPACE = False, btn_KEY_LEFT = False, btn_KEY_RIGHT = False\<rparr>]
            InvertedPendulum_init ! 1) \<le> 5"
proof -
  let ?k = "\<lparr>btnp_KEY_Q = False, btnp_KEY_SPACE = False, btn_KEY_LEFT = False, btn_KEY_RIGHT = False\<rparr>"
  let ?r = "run [?k, ?k] InvertedPendulum_init"
  have z: "integral_error InvertedPendulum_init = 0" by (simp add: InvertedPendulum_init_def)
  then have h: "- 5 \<le> integral_error InvertedPendulum_init" "integral_error InvertedPendulum_init \<le> 5"
    by simp_all
  note t = integral_error_within_limits [OF h, where ks = "[?k, ?k]" and k = ?k and ?s0.0 = InvertedPendulum_init]
  have p: "(\<forall>k\<in>set [?k, ?k]. \<not> btnp_KEY_Q k) \<and> m InvertedPendulum_init \<noteq> 0
           \<and> l InvertedPendulum_init \<noteq> 0"
    by (simp add: InvertedPendulum_init_def)
  with t have len: "length ?r = 2" by simp
  have "1 < length ?r" unfolding len by simp
  then have "?r ! 1 \<in> set ?r" by (rule nth_mem)
  with t have "- 5 \<le> integral_error (?r ! 1) \<and> integral_error (?r ! 1) \<le> 5" by blast
  with z len show ?thesis by blast
qed

text \<open>
  Claim C4: after every frame \<open>cart_x\<close> lies between 20 and 140, for every force, every
  mode and every key answer, and the bound comes from clamping: the new position is the
  old one plus \<open>f dt / m\<close>, cut off at 20 and at 140. The code needs no bound on the
  starting position, so the theorem has none.
\<close>

theorem cart_x_within_bounds:
  "(update_motion f s = Inr s' \<longrightarrow> cart_x s' = max 20 (min 140 (cart_x s + f * dt s / m s)))
   \<and> (update k s = Inr s'' \<longrightarrow> 20 \<le> cart_x s'' \<and> cart_x s'' \<le> 140)
   \<and> (\<forall>t\<in>set (run ks s). 20 \<le> cart_x t \<and> cart_x t \<le> 140)
   \<and> ((\<forall>k\<in>set ks. \<not> btnp_KEY_Q k) \<and> m s \<noteq> 0 \<and> l s \<noteq> 0
        \<longrightarrow> length (run ks s) = length ks)"
proof -
  have "cart_x s' = max 20 (min 140 (cart_x s + f * dt s / m s))"
    if h: "update_motion f s = Inr s'"
  proof (cases "m s = 0 \<or> l s = 0")
    case True
    from update_motion_raises [OF this, of f] h show ?thesis by simp
  next
    case False
    then have "m s \<noteq> 0" "l s \<noteq> 0" by simp_all
    from update_motion_eq [OF this, of f] h show ?thesis by auto
  qed
  then show ?thesis
    using cart_x_update [of k s s''] run_cart_x [of ks s] run_length [of ks s] by blast
qed

theorem cart_x_within_bounds_witness:
  "cart_x (projr (update_motion 100 (InvertedPendulum_init\<lparr>cart_x := 279 / 2\<rparr>))) = 140
   \<and> cart_x (projr (update_motion (- 100) (InvertedPendulum_init\<lparr>cart_x := 21\<rparr>))) = 20
   \<and> cart_x (projr (update_motion 60 InvertedPendulum_init)) = 81"
proof -
  let ?a = "InvertedPendulum_init\<lparr>cart_x := 279 / 2\<rparr>"
  let ?b = "InvertedPendulum_init\<lparr>cart_x := 21\<rparr>"
  let ?c = "InvertedPendulum_init"
  have nz: "m ?a \<noteq> 0" "l ?a \<noteq> 0" "m ?b \<noteq> 0" "l ?b \<noteq> 0" "m ?c \<noteq> 0" "l ?c \<noteq> 0"
    by (simp_all add: InvertedPendulum_init_def)
  from update_motion_eq [OF nz(1,2), of 100]
  obtain a' where a': "update_motion 100 ?a = Inr a'" by blast
  from update_motion_eq [OF nz(3,4), of "- 100"]
  obtain b' where b': "update_motion (- 100) ?b = Inr b'" by blast
  from update_motion_eq [OF nz(5,6), of 60]
  obtain c' where c': "update_motion 60 ?c = Inr c'" by blast
  have "cart_x a' = max 20 (min 140 (cart_x ?a + 100 * dt ?a / m ?a))"
    using cart_x_within_bounds [where f = 100 and s = ?a and s' = a'] a' by blast
  then have "cart_x a' = 140" by (simp add: InvertedPendulum_init_def)
  moreover have "cart_x b' = max 20 (min 140 (cart_x ?b + (- 100) * dt ?b / m ?b))"
    using cart_x_within_bounds [where f = "- 100" and s = ?b and s' = b'] b' by blast
  then have "cart_x b' = 20" by (simp add: InvertedPendulum_init_def)
  moreover have "cart_x c' = max 20 (min 140 (cart_x ?c + 60 * dt ?c / m ?c))"
    using cart_x_within_bounds [where f = 60 and s = ?c and s' = c'] c' by blast
  then have "cart_x c' = 81" by (simp add: InvertedPendulum_init_def)
  ultimately show ?thesis using a' b' c' by simp
qed

text \<open>
  Claim C7: when the SPACE key is pressed, the mode is flipped and \<open>integral_error\<close> is set
  to 0 whatever it held, so the whole frame does not depend on the prior integral; when
  it is not pressed, the mode handling changes nothing. Over a whole frame the mode is
  flipped exactly when SPACE is pressed, and the integral after the frame is the start
  value (0 after SPACE, the old integral otherwise), left as it is in manual mode and
  advanced by the controller in automatic mode: nothing but SPACE discards the old value.
\<close>

theorem toggle_resets_integral_error:
  "(btnp_KEY_SPACE k \<longrightarrow>
      update_mode k s = s\<lparr>auto_control := \<not> auto_control s, integral_error := 0\<rparr>
      \<and> update k (s\<lparr>integral_error := a\<rparr>) = update k (s\<lparr>integral_error := b\<rparr>))
   \<and> (\<not> btnp_KEY_SPACE k \<longrightarrow> update_mode k s = s)
   \<and> (update k s = Inr s' \<longrightarrow>
        auto_control s' = (if btnp_KEY_SPACE k then \<not> auto_control s else auto_control s)
        \<and> integral_error s' =
            (let i0 = (if btnp_KEY_SPACE k then 0 else integral_error s)
             in if auto_control s'
                then max (- 5) (min 5 (i0 + normalize_angle (theta s - (- pi / 2)) * dt s))
                else i0))"
proof -
  have "auto_control s' = (if btnp_KEY_SPACE k then \<not> auto_control s else auto_control s)
        \<and> integral_error s' =
            (let i0 = (if btnp_KEY_SPACE k then 0 else integral_error s)
             in if auto_control s'
                then max (- 5) (min 5 (i0 + normalize_angle (theta s - (- pi / 2)) * dt s))
                else i0)"
    if h: "update k s = Inr s'"
    using update_Inr_fields(10,11) [OF h]
    by (simp add: snd_update_force update_mode_eq Let_def)
  then show ?thesis
    using update_space_forgets_integral [where k = k and s = s and a = a and b = b] by (simp add: update_mode_eq)
qed

theorem toggle_resets_integral_error_witness:
  "btnp_KEY_SPACE \<lparr>btnp_KEY_Q = False, btnp_KEY_SPACE = True, btn_KEY_LEFT = False, btn_KEY_RIGHT = False\<rparr>
   \<and> integral_error
        (update_mode \<lparr>btnp_KEY_Q = False, btnp_KEY_SPACE = True, btn_KEY_LEFT = False, btn_KEY_RIGHT = False\<rparr>
           (InvertedPendulum_init\<lparr>integral_error := 3\<rparr>)) = 0
   \<and> auto_control
        (projr (update \<lparr>btnp_KEY_Q = False, btnp_KEY_SPACE = True, btn_KEY_LEFT = False, btn_KEY_RIGHT = False\<rparr>
           (InvertedPendulum_init\<lparr>integral_error := 3\<rparr>))) = False
   \<and> integral_error
        (projr (update \<lparr>btnp_KEY_Q = False, btnp_KEY_SPACE = True, btn_KEY_LEFT = False, btn_KEY_RIGHT = False\<rparr>
           (InvertedPendulum_init\<lparr>integral_error := 3\<rparr>))) = 0"
proof -
  let ?k = "\<lparr>btnp_KEY_Q = False, btnp_KEY_SPACE = True, btn_KEY_LEFT = False, btn_KEY_RIGHT = False\<rparr>"
  let ?s = "InvertedPendulum_init\<lparr>integral_error := 3\<rparr>"
  have "\<not> btnp_KEY_Q ?k" "m ?s \<noteq> 0" "l ?s \<noteq> 0" by (simp_all add: InvertedPendulum_init_def)
  from update_total [OF this] obtain t where t: "update ?k ?s = Inr t" ..
  note c = toggle_resets_integral_error [where k = ?k and s = ?s and s' = t and a = 0 and b = 0]
  have sp: "btnp_KEY_SPACE ?k" by simp
  with c have "update_mode ?k ?s = ?s\<lparr>auto_control := \<not> auto_control ?s, integral_error := 0\<rparr>"
    by blast
  then have 1: "integral_error (update_mode ?k ?s) = 0" by simp
  from c t sp have 2: "auto_control t = (\<not> auto_control ?s)" by simp
  then have 3: "auto_control t = False" by (simp add: InvertedPendulum_init_def)
  from c t sp 3 have 4: "integral_error t = 0" by (simp add: Let_def)
  from 1 3 4 t sp show ?thesis by simp
qed



section \<open>Construction and configuration\<close>







end
